theory Spec2Isabelle
  imports Complex_Main "HOL-Library.Sublist"
begin

section \<open>Python strings\<close>

text \<open>
  A Python \<^verbatim>\<open>str\<close> is a sequence of Unicode code points, so a string is a list of
  natural numbers, one per code point. \<open>ascii\<close> turns a literal of the theory into such
  a list; the bullet U+2022, which \<^verbatim>\<open>app.py\<close> uses in three places, is written as a
  number.
\<close>

type_synonym ustr = "nat list"

definition ascii :: "string \<Rightarrow> ustr" where
  "ascii s = map of_char s"

definition NEWLINE :: nat where
  "NEWLINE = 10"

definition SPACE :: nat where
  "SPACE = 32"

definition STAR :: nat where
  "STAR = 42"

definition BULLET :: nat where
  "BULLET = 8226"

text \<open>
  \<^verbatim>\<open>str.isspace\<close> of one code point, which is also what \<^verbatim>\<open>str.strip()\<close> removes and
  what \<^verbatim>\<open>\s\<close> matches in a \<^verbatim>\<open>str\<close> pattern: the code points CPython lists in
  \<^verbatim>\<open>_PyUnicode_IsWhitespace\<close>.
\<close>

definition isspace :: "nat \<Rightarrow> bool" where
  "isspace c = ((9 \<le> c \<and> c \<le> 13) \<or> (28 \<le> c \<and> c \<le> 32) \<or> c = 133 \<or> c = 160
     \<or> c = 5760 \<or> (8192 \<le> c \<and> c \<le> 8202) \<or> c = 8232 \<or> c = 8233 \<or> c = 8239
     \<or> c = 8287 \<or> c = 12288)"

text \<open>\<^verbatim>\<open>s.strip()\<close>: white space is removed at both ends.\<close>

definition py_strip :: "ustr \<Rightarrow> ustr" where
  "py_strip s = rev (dropWhile isspace (rev (dropWhile isspace s)))"

text \<open>\<^verbatim>\<open>s.startswith(p)\<close>.\<close>

definition startswith :: "ustr \<Rightarrow> ustr \<Rightarrow> bool" where
  "startswith s p = prefix p s"

text \<open>
  \<^verbatim>\<open>s.split(sep)\<close> for a separator of one code point: the pieces between the
  separators, empty pieces included; the result is never empty.
\<close>

fun split_on :: "nat \<Rightarrow> ustr \<Rightarrow> ustr list" where
  "split_on sep [] = [[]]"
| "split_on sep (c # cs) =
     (let r = split_on sep cs in if c = sep then [] # r else (c # hd r) # tl r)"

text \<open>
  \<^verbatim>\<open>s.replace(old, new)\<close>: the occurrences of \<open>old\<close> are found from left to right
  and do not overlap. With an empty \<open>old\<close> Python puts \<open>new\<close> before every code point
  and at the end.
\<close>

function str_replace :: "ustr \<Rightarrow> ustr \<Rightarrow> ustr \<Rightarrow> ustr" where
  "str_replace old new [] = (if old = [] then new else [])"
| "str_replace old new (c # r) =
     (if old = [] then new @ c # str_replace old new r
      else if prefix old (c # r) then new @ str_replace old new (drop (length old) (c # r))
      else c # str_replace old new r)"
  by pat_completeness auto
termination
  by (relation "measure (\<lambda>(old, new, s). length s)") auto

declare str_replace.simps [simp del]

text \<open>
  \<^verbatim>\<open>s.lower()\<close>. CPython maps the code points one by one: the ASCII capitals go to
  their small letters and every other ASCII code point stays. The bullet has no case
  mapping. For the remaining code points the mapping is the Unicode database's, which is
  not part of the repository: it is the parameter \<open>L\<close>, applied to the text before the
  code point, the code point and the text after it (the capital sigma is mapped by its
  context), and it gives the code points that replace it.
\<close>

type_synonym lower_table = "ustr \<Rightarrow> nat \<Rightarrow> ustr \<Rightarrow> ustr"

definition ascii_lower :: "nat \<Rightarrow> nat" where
  "ascii_lower c = (if 65 \<le> c \<and> c \<le> 90 then c + 32 else c)"

definition lower_char :: "lower_table \<Rightarrow> ustr \<Rightarrow> nat \<Rightarrow> ustr \<Rightarrow> ustr" where
  "lower_char L pre c post =
     (if c < 128 then [ascii_lower c] else if c = BULLET then [c] else L pre c post)"

fun lower_from :: "lower_table \<Rightarrow> ustr \<Rightarrow> ustr \<Rightarrow> ustr" where
  "lower_from L pre [] = []"
| "lower_from L pre (c # post) =
     lower_char L pre c post @ lower_from L (pre @ [c]) post"

definition py_lower :: "lower_table \<Rightarrow> ustr \<Rightarrow> ustr" where
  "py_lower L s = lower_from L [] s"

text \<open>A table for the examples below: it leaves every code point as it is.\<close>

definition no_case_table :: lower_table where
  "no_case_table pre c post = [c]"

text \<open>
  \<^verbatim>\<open>str(n)\<close> for an integer, as the f-string of the error message formats the status
  code.
\<close>

fun str_nat :: "nat \<Rightarrow> ustr" where
  "str_nat n = (if n < 10 then [48 + n] else str_nat (n div 10) @ [48 + n mod 10])"

declare str_nat.simps [simp del]

definition str_int :: "int \<Rightarrow> ustr" where
  "str_int i = (if i < 0 then 45 # str_nat (nat (- i)) else str_nat (nat i))"

section \<open>The two regular expressions of the renderer\<close>

text \<open>
  \<^verbatim>\<open>re.sub(r"^[\*\-\\<bullet>]+\s*", "", s)\<close> (the third member of the class is the
  bullet U+2022). The pattern is anchored at the start of the string and the flags are
  the default ones, so it matches at most once: a longest run of one or more marker code
  points, then a longest run of white space. Without a leading marker nothing matches and
  the string is returned as it is.
\<close>

definition is_marker :: "nat \<Rightarrow> bool" where
  "is_marker c = (c = STAR \<or> c = 45 \<or> c = BULLET)"

definition sub_leading_markers :: "ustr \<Rightarrow> ustr" where
  "sub_leading_markers s =
     (case s of
        [] \<Rightarrow> []
      | c # _ \<Rightarrow> if is_marker c then dropWhile isspace (dropWhile is_marker s) else s)"

text \<open>
  \<^verbatim>\<open>re.sub(r"\*\*(.*?)\*\*", r"<b>\1</b>", s)\<close>. After an opening pair of stars,
  \<open>find_close\<close> looks for the nearest closing pair: the group is lazy, and \<^verbatim>\<open>.\<close> does
  not match a newline. It returns the group and the text after the closing pair.
  \<open>bold_sub\<close> scans from the left, replaces each match and goes on after it.
\<close>

fun find_close :: "ustr \<Rightarrow> (ustr \<times> ustr) option" where
  "find_close (c # d # r) =
     (if c = STAR \<and> d = STAR then Some ([], r)
      else if c = NEWLINE then None
      else (case find_close (d # r) of
              None \<Rightarrow> None
            | Some (g, rest) \<Rightarrow> Some (c # g, rest)))"
| "find_close s = None"

function bold_sub :: "ustr \<Rightarrow> ustr" where
  "bold_sub [] = []"
| "bold_sub (c # r) =
     (case (if startswith (c # r) [STAR, STAR] then find_close (drop 2 (c # r)) else None) of
        None \<Rightarrow> c # bold_sub r
      | Some (g, rest) \<Rightarrow> ascii ''<b>'' @ g @ ascii ''</b>'' @ bold_sub rest)"
  by pat_completeness auto
termination
proof (relation "measure length")
  show "wf (measure length)" by simp
next
  fix c :: nat and r :: ustr
  show "(r, c # r) \<in> measure length" by simp
next
  fix c :: nat and r :: ustr and x2 :: "ustr \<times> ustr" and g rest :: ustr
  assume a: "(if startswith (c # r) [STAR, STAR] then find_close (drop 2 (c # r)) else None)
               = Some x2"
    and b: "(g, rest) = x2"
  have len: "find_close s = Some (h, t) \<Longrightarrow> length h + 2 + length t = length s" for s h t
  proof (induction s arbitrary: h t rule: find_close.induct)
    case (1 c d r)
    then show ?case
      by (auto split: if_splits option.splits)
  qed simp_all
  from a b have "find_close (drop 2 (c # r)) = Some (g, rest)"
    by (simp split: if_splits)
  from len [OF this] have "length rest < length (c # r)"
    by simp
  then show "(rest, c # r) \<in> measure length" by simp
qed

section \<open>The document renderer\<close>

text \<open>The exceptions that the code lets pass to its caller.\<close>

datatype exn =
    KeyError
  | IndexError
  | TypeError
  | ValueError
  | AttributeError
  | JSONDecodeError
  | RequestException
  | UnicodeDecodeError

text \<open>
  The blocks that \<^verbatim>\<open>create_pdf\<close> hands to the layout library: a paragraph with its
  text and the name of its style, and a spacer with its width and height. The style
  attributes are constants of the source and play no role below.
\<close>

datatype style = BodyText | Heading2 | BulletStyle

datatype flowable = is_Paragraph: Paragraph ustr style | is_Spacer: Spacer nat nat

text \<open>
  The layout library is not part of the repository, and two of its operations can fail.
  \<^verbatim>\<open>Paragraph(text, style)\<close> parses the text as markup when the paragraph is built and
  raises \<^verbatim>\<open>ValueError\<close> when the markup is malformed: \<open>accepts\<close> says which texts the
  parser takes. \<^verbatim>\<open>doc.build(story)\<close> writes the bytes of the PDF into the buffer or
  raises: it is \<open>build\<close>.
\<close>

type_synonym bytes = "nat list"

record reportlab =
  accepts :: "ustr \<Rightarrow> style \<Rightarrow> bool"
  build :: "flowable list \<Rightarrow> exn + bytes"

definition make_paragraph :: "reportlab \<Rightarrow> ustr \<Rightarrow> style \<Rightarrow> exn + flowable" where
  "make_paragraph R text style =
     (if accepts R text style then Inr (Paragraph text style) else Inl ValueError)"

definition REFUSAL :: ustr where
  "REFUSAL = ascii ''please provide the transcript''"

text \<open>
  The body of the loop over the lines: \<open>None\<close> is \<^verbatim>\<open>continue\<close>; otherwise a paragraph
  is built, and \<open>Some (Inr b)\<close> is \<^verbatim>\<open>story.append(b)\<close>, \<open>Some (Inl e)\<close> the exception
  that the constructor raises.
\<close>

definition render_line :: "reportlab \<Rightarrow> lower_table \<Rightarrow> ustr \<Rightarrow> (exn + flowable) option" where
  "render_line R L raw =
     (let line = py_strip raw in
      if line = [] \<or> startswith (py_lower L line) REFUSAL then None
      else if startswith line (ascii ''##'') then
        Some (make_paragraph R (py_strip (str_replace (ascii ''##'') [] line)) Heading2)
      else if startswith line (ascii ''* '') \<or> startswith line (ascii ''- '')
              \<or> startswith line [BULLET, SPACE] then
        (let cleaned_line = py_strip (sub_leading_markers line);
             cleaned_line = bold_sub cleaned_line
         in Some (make_paragraph R ([BULLET, SPACE] @ cleaned_line) BulletStyle))
      else
        (let cleaned_line = bold_sub line
         in Some (make_paragraph R cleaned_line BodyText)))"

text \<open>The loop: an exception of the body ends it, and the story built so far is lost.\<close>

fun story_loop ::
  "reportlab \<Rightarrow> lower_table \<Rightarrow> flowable list \<Rightarrow> ustr list \<Rightarrow> exn + flowable list" where
  "story_loop R L story [] = Inr story"
| "story_loop R L story (line # lines) =
     (case render_line R L line of
        None \<Rightarrow> story_loop R L story lines
      | Some (Inl e) \<Rightarrow> Inl e
      | Some (Inr b) \<Rightarrow> story_loop R L (story @ [b]) lines)"

text \<open>
  Lines 97 to 120 of \<^verbatim>\<open>create_pdf\<close>: the list \<^verbatim>\<open>story\<close> as it is passed to
  \<^verbatim>\<open>doc.build\<close>, or the exception raised before.
\<close>

definition build_story :: "reportlab \<Rightarrow> lower_table \<Rightarrow> ustr \<Rightarrow> exn + flowable list" where
  "build_story R L summary_text =
     (let story = [];
          lines = split_on NEWLINE (py_strip summary_text)
      in case story_loop R L story lines of
           Inl e \<Rightarrow> Inl e
         | Inr story \<Rightarrow> Inr (story @ [Spacer 1 20]))"

text \<open>\<^verbatim>\<open>create_pdf\<close>: the bytes of the buffer that it returns, or the exception.\<close>

definition create_pdf :: "reportlab \<Rightarrow> lower_table \<Rightarrow> ustr \<Rightarrow> exn + bytes" where
  "create_pdf R L summary_text =
     (case build_story R L summary_text of
        Inl e \<Rightarrow> Inl e
      | Inr story \<Rightarrow> build R story)"

section \<open>The summarization call\<close>

text \<open>
  JSON values, as \<^verbatim>\<open>requests\<close> sends the payload and as \<^verbatim>\<open>response.json()\<close> returns the
  body. An object is the list of the items of the Python \<^verbatim>\<open>dict\<close>: every key occurs once.
\<close>

datatype json_value =
    JNull
  | JBool bool
  | JNumber real
  | JString ustr
  | JArray "json_value list"
  | JObject "(ustr \<times> json_value) list"

text \<open>
  \<^verbatim>\<open>v[key]\<close> with a string key and \<^verbatim>\<open>v[i]\<close> with an index that is not negative, on a
  value that \<^verbatim>\<open>response.json()\<close> returned. A string can be indexed by a number, a list
  and a string cannot be indexed by a string, and an object has no number among its
  keys.
\<close>

fun getitem_key :: "json_value \<Rightarrow> ustr \<Rightarrow> exn + json_value" where
  "getitem_key (JObject items) k =
     (case map_of items k of None \<Rightarrow> Inl KeyError | Some v \<Rightarrow> Inr v)"
| "getitem_key v k = Inl TypeError"

fun getitem_index :: "json_value \<Rightarrow> nat \<Rightarrow> exn + json_value" where
  "getitem_index (JArray xs) i = (if i < length xs then Inr (xs ! i) else Inl IndexError)"
| "getitem_index (JString s) i = (if i < length s then Inr (JString [s ! i]) else Inl IndexError)"
| "getitem_index (JObject items) i = Inl KeyError"
| "getitem_index v i = Inl TypeError"

record request =
  url :: ustr
  headers :: "(ustr \<times> ustr) list"
  json :: json_value

text \<open>
  What the code reads of a response: the status code, the raw body, and what
  \<^verbatim>\<open>response.json()\<close> gives, \<open>None\<close> when the body is not JSON and the call raises.
\<close>

record response =
  status_code :: int
  response_text :: ustr
  response_json :: "json_value option"

definition MODEL_NAME :: ustr where
  "MODEL_NAME = ascii ''meta-llama/llama-4-scout-17b-16e-instruct''"

definition QUOTE :: nat where
  "QUOTE = 34"

text \<open>
  The f-string of \<^verbatim>\<open>summarize_full_text\<close>: the text before the field \<^verbatim>\<open>{text}\<close> and the
  text after it.
\<close>

definition PROMPT_HEAD :: ustr where
  "PROMPT_HEAD =
      [NEWLINE]
      @ ascii ''    Summarize the following Coursera transcript into a neat, concise handout suitable for revision.''
      @ [NEWLINE]
      @ ascii ''    Organize the information logically with clear headings and concise paragraphs or standard bullet points.''
      @ [NEWLINE]
      @ ascii ''    Focus on key concepts, important definitions, procedures, and significant points.''
      @ [NEWLINE]
      @ ascii ''    Do not use specific labels like 'Key Takeaway:', 'Example:', 'Tip:', or 'Note:'.''
      @ [NEWLINE]
      @ ascii ''    Ensure the summary is easy to read and understand for a revision purpose.''
      @ [NEWLINE]
      @ ascii ''    Only return the clean, summarized content. Do not repeat this prompt or add extra instructions or conversational text.''
      @ [NEWLINE]
      @ [NEWLINE]
      @ ascii ''    '' @ [QUOTE, QUOTE, QUOTE] @ [NEWLINE]"

definition PROMPT_TAIL :: ustr where
  "PROMPT_TAIL = [NEWLINE] @ [QUOTE, QUOTE, QUOTE] @ [NEWLINE] @ ascii ''    ''"

text \<open>Lines 50 to 53: the branch on the status code.\<close>

definition handle_response :: "response \<Rightarrow> exn + json_value" where
  "handle_response response =
     (if status_code response = 200 then
        (case response_json response of
           None \<Rightarrow> Inl JSONDecodeError
         | Some body \<Rightarrow>
             (case getitem_key body (ascii ''choices'') of
                Inl e \<Rightarrow> Inl e
              | Inr choices \<Rightarrow>
                  (case getitem_index choices 0 of
                     Inl e \<Rightarrow> Inl e
                   | Inr choice \<Rightarrow>
                       (case getitem_key choice (ascii ''message'') of
                          Inl e \<Rightarrow> Inl e
                        | Inr message \<Rightarrow> getitem_key message (ascii ''content'')))))
      else
        Inr (JString (ascii ''ERROR: '' @ str_int (status_code response) @ ascii '' - ''
               @ response_text response)))"

text \<open>
  \<^verbatim>\<open>summarize_full_text\<close>. The key comes from the secrets of the deployment and
  \<open>post\<close> is \<^verbatim>\<open>requests.post\<close> with the remote service behind it: it answers with a
  response or raises. The function returns the request it has posted, which is its
  effect, and its result.
\<close>

definition summarize_full_text ::
  "ustr \<Rightarrow> (request \<Rightarrow> exn + response) \<Rightarrow> ustr \<Rightarrow> request \<times> (exn + json_value)" where
  "summarize_full_text API_KEY post text =
     (let url = ascii ''https://api.groq.com/openai/v1/chat/completions'';
          headers =
            [(ascii ''Authorization'', ascii ''Bearer '' @ API_KEY),
             (ascii ''Content-Type'', ascii ''application/json'')];
          prompt = PROMPT_HEAD @ text @ PROMPT_TAIL;
          payload =
            JObject
              [(ascii ''model'', JString MODEL_NAME),
               (ascii ''messages'',
                  JArray [JObject [(ascii ''role'', JString (ascii ''user'')),
                                   (ascii ''content'', JString prompt)]]),
               (ascii ''temperature'', JNumber 0.3)];
          req = \<lparr>url = url, headers = headers, json = payload\<rparr>
      in (req, case post req of Inl e \<Rightarrow> Inl e | Inr response \<Rightarrow> handle_response response))"

section \<open>The main workflow\<close>

text \<open>
  The script runs from its first line to its last at every interaction. What a run
  reads: the widgets and the session state. \<open>uploaded_file\<close> is \<open>None\<close> without an
  upload, and otherwise what \<^verbatim>\<open>uploaded_file.read().decode("utf-8")\<close> gives, the
  transcript or the exception. \<open>regenerate_clicked\<close> is the value of the regenerate
  button in this run. In the session state, \<open>None\<close> is the key that is not there,
  \<open>Some None\<close> the key with Python's \<^verbatim>\<open>None\<close>, \<open>Some (Some s)\<close> the cached summary.
\<close>

record widgets =
  uploaded_file :: "(exn + ustr) option"
  pdf_name :: ustr
  regenerate_clicked :: bool

record session_state =
  full_summary_cached :: "ustr option option"

text \<open>
  What a run puts on the page, in order, with the texts that depend on the run: the
  two notices, the error, the success line, the box with the summary, the regenerate
  button, and the download button with its file name and the bytes of the PDF.
\<close>

datatype element =
    Info_upload
  | Info_summarizing
  | Error ustr
  | Success
  | Text_area ustr
  | Button_regenerate
  | Download_button ustr bytes

text \<open>
  How a run ends: at the last line, by \<^verbatim>\<open>st.stop()\<close>, by \<^verbatim>\<open>st.rerun()\<close>, or by an
  exception that nothing catches.
\<close>

datatype ending = Complete | Stopped | Rerun | Raised exn

record run =
  session :: session_state
  requests :: "request list"
  shown :: "element list"
  ending :: ending

text \<open>The file name of the download button.\<close>

definition file_name :: "ustr \<Rightarrow> ustr" where
  "file_name name =
     (let stripped = py_strip name
      in (if stripped \<noteq> [] then stripped else ascii ''summary'') @ ascii ''.pdf'')"

text \<open>
  Lines 146 to 161, which follow once \<^verbatim>\<open>summary\<close> is bound. The regenerate button comes
  before \<^verbatim>\<open>create_pdf\<close>, whose exception ends the run without a download button.
\<close>

definition show_summary ::
  "reportlab \<Rightarrow> lower_table \<Rightarrow> widgets \<Rightarrow> session_state \<Rightarrow> request list \<Rightarrow> ustr \<Rightarrow> run" where
  "show_summary R L w st reqs summary =
     (let page = [Info_summarizing, Success, Text_area summary, Button_regenerate]
      in if regenerate_clicked w then
           \<lparr>session = st\<lparr>full_summary_cached := Some None\<rparr>, requests = reqs,
            shown = page, ending = Rerun\<rparr>
         else
           (case create_pdf R L summary of
              Inl e \<Rightarrow>
                \<lparr>session = st, requests = reqs, shown = page, ending = Raised e\<rparr>
            | Inr pdf \<Rightarrow>
                \<lparr>session = st, requests = reqs,
                 shown = page @ [Download_button (file_name (pdf_name w)) pdf],
                 ending = Complete\<rparr>))"

text \<open>Lines 127 to 163: one run of the script.\<close>

definition run_script ::
  "reportlab \<Rightarrow> lower_table \<Rightarrow> ustr \<Rightarrow> (request \<Rightarrow> exn + response) \<Rightarrow> widgets \<Rightarrow> session_state
     \<Rightarrow> run" where
  "run_script R L API_KEY post w st =
     (case uploaded_file w of
        None \<Rightarrow> \<lparr>session = st, requests = [], shown = [Info_upload], ending = Complete\<rparr>
      | Some (Inl e) \<Rightarrow> \<lparr>session = st, requests = [], shown = [], ending = Raised e\<rparr>
      | Some (Inr transcript) \<Rightarrow>
          (let st = (if full_summary_cached st = None
                     then st\<lparr>full_summary_cached := Some None\<rparr> else st)
           in case full_summary_cached st of
                Some (Some summary) \<Rightarrow> show_summary R L w st [] summary
              | _ \<Rightarrow>
                  (case summarize_full_text API_KEY post transcript of
                     (req, Inl e) \<Rightarrow>
                       \<lparr>session = st, requests = [req], shown = [Info_summarizing],
                        ending = Raised e\<rparr>
                   | (req, Inr (JString summary)) \<Rightarrow>
                       if startswith summary (ascii ''ERROR'') then
                         \<lparr>session = st, requests = [req],
                          shown = [Info_summarizing, Error summary], ending = Stopped\<rparr>
                       else
                         show_summary R L w (st\<lparr>full_summary_cached := Some (Some summary)\<rparr>)
                           [req] summary
                   | (req, Inr v) \<Rightarrow>
                       \<lparr>session = st, requests = [req], shown = [Info_summarizing],
                        ending = Raised AttributeError\<rparr>)))"

section \<open>The executions of the workflow\<close>

text \<open>
  The executions. Between two runs the application holds the widgets as the last run
  read them, the session state, whether the last run ended by \<^verbatim>\<open>st.rerun()\<close>, and
  whether it showed the regenerate button. A run starts either by an interaction of the
  user, who may change the upload and the file name, or press the regenerate button if
  the page shows it and leaves the other widgets as they are; or by itself after
  \<^verbatim>\<open>st.rerun()\<close>, with the same widgets and the button released. The remote service
  may answer every run differently.
\<close>

record app =
  app_widgets :: widgets
  app_session :: session_state
  rerun_pending :: bool
  button_shown :: bool

definition initial_app :: app where
  "initial_app =
     \<lparr>app_widgets =
        \<lparr>uploaded_file = None, pdf_name = ascii ''summary'', regenerate_clicked = False\<rparr>,
      app_session = \<lparr>full_summary_cached = None\<rparr>,
      rerun_pending = False,
      button_shown = False\<rparr>"

definition after_run :: "widgets \<Rightarrow> run \<Rightarrow> app" where
  "after_run w r =
     \<lparr>app_widgets = w,
      app_session = session r,
      rerun_pending = (ending r = Rerun),
      button_shown = (Button_regenerate \<in> set (shown r))\<rparr>"

definition may_interact :: "app \<Rightarrow> widgets \<Rightarrow> bool" where
  "may_interact a w =
     (\<not> rerun_pending a \<and>
      (if regenerate_clicked w
       then button_shown a
            \<and> uploaded_file w = uploaded_file (app_widgets a)
            \<and> pdf_name w = pdf_name (app_widgets a)
       else True))"

inductive step :: "reportlab \<Rightarrow> lower_table \<Rightarrow> ustr \<Rightarrow> app \<Rightarrow> run \<Rightarrow> app \<Rightarrow> bool"
  for R :: reportlab and L :: lower_table and API_KEY :: ustr where
  interaction:
    "may_interact a w \<Longrightarrow> r = run_script R L API_KEY post w (app_session a) \<Longrightarrow>
     step R L API_KEY a r (after_run w r)"
| rerun:
    "rerun_pending a \<Longrightarrow> w = (app_widgets a)\<lparr>regenerate_clicked := False\<rparr> \<Longrightarrow>
     r = run_script R L API_KEY post w (app_session a) \<Longrightarrow>
     step R L API_KEY a r (after_run w r)"

inductive reachable :: "reportlab \<Rightarrow> lower_table \<Rightarrow> ustr \<Rightarrow> app \<Rightarrow> bool"
  for R :: reportlab and L :: lower_table and API_KEY :: ustr where
  start: "reachable R L API_KEY initial_app"
| next_run:
    "reachable R L API_KEY a \<Longrightarrow> step R L API_KEY a r a' \<Longrightarrow> reachable R L API_KEY a'"

section \<open>Notions of the specification\<close>

text \<open>
  A string begins with a phrase when case is ignored: the phrase fits, and the first
  code points equal it once the ASCII capitals on both sides are made small.
\<close>

definition startswith_nocase :: "ustr \<Rightarrow> ustr \<Rightarrow> bool" where
  "startswith_nocase s p =
     (length p \<le> length s \<and> map ascii_lower (take (length p) s) = map ascii_lower p)"

section \<open>Examples\<close>

text \<open>
  A layout library for the examples. Like the parser of the real one, it takes the bold
  tags and plain text and refuses a \<^verbatim>\<open><\<close> that opens no tag, as in \<^verbatim>\<open>if a<b then\<close>; it
  builds every story.
\<close>

fun bold_tags_only :: "ustr \<Rightarrow> bool" where
  "bold_tags_only [] = True"
| "bold_tags_only (c # r) =
     ((if c = 60 then startswith r (ascii ''b>'') \<or> startswith r (ascii ''/b>'') else True)
      \<and> bold_tags_only r)"

definition example_library :: reportlab where
  "example_library =
     \<lparr>accepts = (\<lambda>text style. bold_tags_only text),
      build = (\<lambda>story. Inr (ascii ''%PDF''))\<rparr>"

text \<open>
  Two remote services for the examples: one answers with a summary, the other refuses
  with status 429.
\<close>

definition summary_reply :: response where
  "summary_reply =
     \<lparr>status_code = 200,
      response_text = [],
      response_json = Some (JObject
        [(ascii ''id'', JString (ascii ''c1'')),
         (ascii ''choices'', JArray
            [JObject [(ascii ''index'', JNumber 0),
                      (ascii ''message'', JObject
                         [(ascii ''role'', JString (ascii ''assistant'')),
                          (ascii ''content'', JString (ascii ''## Notes''))])]])])\<rparr>"

definition refusal_reply :: response where
  "refusal_reply =
     \<lparr>status_code = 429, response_text = ascii ''slow down'', response_json = None\<rparr>"

definition summary_post :: "request \<Rightarrow> exn + response" where
  "summary_post req = Inr summary_reply"

definition refusal_post :: "request \<Rightarrow> exn + response" where
  "refusal_post req = Inr refusal_reply"

text \<open>
  An execution for the examples: a transcript is uploaded and summarized, the
  regenerate button is pressed, and the rerun meets a service that refuses.
\<close>

definition visit :: widgets where
  "visit = \<lparr>uploaded_file = Some (Inr (ascii ''hi'')), pdf_name = ascii '' notes '',
            regenerate_clicked = False\<rparr>"

definition run1 :: run where
  "run1 = run_script example_library no_case_table (ascii ''k'') summary_post visit (app_session initial_app)"

definition app1 :: app where
  "app1 = after_run visit run1"

definition run2 :: run where
  "run2 = run_script example_library no_case_table (ascii ''k'') summary_post
            (visit\<lparr>regenerate_clicked := True\<rparr>) (app_session app1)"

definition app2 :: app where
  "app2 = after_run (visit\<lparr>regenerate_clicked := True\<rparr>) run2"

definition run3 :: run where
  "run3 = run_script example_library no_case_table (ascii ''k'') refusal_post
            ((app_widgets app2)\<lparr>regenerate_clicked := False\<rparr>) (app_session app2)"

definition app3 :: app where
  "app3 = after_run ((app_widgets app2)\<lparr>regenerate_clicked := False\<rparr>) run3"

section \<open>Properties of the string operations\<close>

lemma all_dropWhile: "(\<forall>x\<in>set (dropWhile P xs). P x) \<longleftrightarrow> (\<forall>x\<in>set xs. P x)"
  by (induction xs) auto

lemma py_strip_Nil_iff: "py_strip s = [] \<longleftrightarrow> (\<forall>c\<in>set s. isspace c)"
  by (simp add: py_strip_def dropWhile_eq_Nil_conv all_dropWhile)

lemma py_strip_decomp:
  "\<exists>w1 w2. s = w1 @ py_strip s @ w2 \<and> (\<forall>c\<in>set w1. isspace c) \<and> (\<forall>c\<in>set w2. isspace c)"
proof -
  let ?a = "takeWhile isspace s" and ?m = "dropWhile isspace s"
  let ?b = "takeWhile isspace (rev ?m)"
  have "rev ?m = ?b @ dropWhile isspace (rev ?m)" by simp
  then have "?m = rev (dropWhile isspace (rev ?m)) @ rev ?b"
    by (metis rev_append rev_rev_ident)
  then have "s = ?a @ py_strip s @ rev ?b"
    by (metis py_strip_def takeWhile_dropWhile_id)
  moreover have "\<forall>c\<in>set ?a. isspace c" by (auto dest: set_takeWhileD)
  moreover have "\<forall>c\<in>set (rev ?b). isspace c" by (auto dest: set_takeWhileD)
  ultimately show ?thesis by blast
qed

lemma py_strip_ends:
  assumes "py_strip s \<noteq> []"
  shows "\<not> isspace (hd (py_strip s))" and "\<not> isspace (last (py_strip s))"
proof -
  let ?m = "dropWhile isspace s"
  let ?r = "dropWhile isspace (rev ?m)"
  from assms have r: "?r \<noteq> []" by (simp add: py_strip_def)
  then have "\<not> isspace (hd ?r)" by (rule hd_dropWhile)
  then show "\<not> isspace (last (py_strip s))"
    using r by (simp add: py_strip_def last_rev)
  from r have m: "?m \<noteq> []" by (cases "?m") auto
  then have hm: "\<not> isspace (hd ?m)" by (rule hd_dropWhile)
  have "rev ?m = takeWhile isspace (rev ?m) @ ?r" by simp
  then have "?m = rev ?r @ rev (takeWhile isspace (rev ?m))"
    by (metis rev_append rev_rev_ident)
  then have "hd ?m = hd (rev ?r)" using r by (metis hd_append2 rev_is_Nil_conv)
  with hm show "\<not> isspace (hd (py_strip s))" by (simp add: py_strip_def)
qed

lemma py_strip_id:
  assumes "s \<noteq> []" "\<not> isspace (hd s)" "\<not> isspace (last s)"
  shows "py_strip s = s"
proof -
  from assms have "dropWhile isspace s = s" by (cases s) auto
  moreover from assms have "dropWhile isspace (rev s) = rev s"
    by (cases "rev s") (auto simp: last_rev hd_rev)
  ultimately show ?thesis by (simp add: py_strip_def)
qed

lemma py_strip_idem: "py_strip (py_strip s) = py_strip s"
proof (cases "py_strip s = []")
  case True
  then show ?thesis by (simp add: py_strip_def [of "[]"])
next
  case False
  then show ?thesis using py_strip_ends [OF False] by (simp add: py_strip_id)
qed

lemma py_strip_pad:
  assumes "\<forall>c\<in>set w1. isspace c" "\<forall>c\<in>set w2. isspace c"
  shows "py_strip (w1 @ m @ w2) = py_strip m"
proof -
  have a: "dropWhile isspace (w1 @ m @ w2) = dropWhile isspace (m @ w2)"
    using assms(1) by (simp add: dropWhile_append)
  show ?thesis
  proof (cases "\<forall>c\<in>set m. isspace c")
    case True
    with assms have "\<forall>c\<in>set (w1 @ m @ w2). isspace c" by auto
    then have "py_strip (w1 @ m @ w2) = []" by (simp only: py_strip_Nil_iff)
    moreover from True have "py_strip m = []" by (simp only: py_strip_Nil_iff)
    ultimately show ?thesis by simp
  next
    case False
    then have b: "dropWhile isspace (m @ w2) = dropWhile isspace m @ w2"
      by (auto simp: dropWhile_append)
    from False have ne: "dropWhile isspace m \<noteq> []" by (auto simp: dropWhile_eq_Nil_conv)
    have "\<exists>c\<in>set (dropWhile isspace m). \<not> isspace c"
      using ne hd_dropWhile [of isspace m] by (metis hd_in_set)
    then have c: "dropWhile isspace (rev w2 @ rev (dropWhile isspace m))
           = dropWhile isspace (rev (dropWhile isspace m))"
      using assms(2) by (simp add: dropWhile_append)
    show ?thesis by (simp add: py_strip_def a b c)
  qed
qed

lemma ascii_lower_ge: "c \<le> ascii_lower c"
  by (simp add: ascii_lower_def)

lemma lower_from_ascii:
  "\<forall>c\<in>set p. c < 128 \<Longrightarrow> lower_from L pre (p @ s) = map ascii_lower p @ lower_from L (pre @ p) s"
  by (induction p arbitrary: pre) (simp_all add: lower_char_def)

lemma REFUSAL_ascii: "\<forall>c\<in>set REFUSAL. c < 128"
  by (simp add: REFUSAL_def ascii_def)

lemma REFUSAL_hd: "REFUSAL = 112 # tl REFUSAL"
  by (simp add: REFUSAL_def ascii_def)

lemma not_refusal:
  assumes "(c < 128 \<and> ascii_lower c \<noteq> 112) \<or> c = BULLET"
  shows "\<not> startswith (py_lower L (c # r)) REFUSAL"
proof -
  obtain d where d: "py_lower L (c # r) = d # lower_from L [c] r" and "d \<noteq> 112"
    using assms by (auto simp: py_lower_def lower_char_def BULLET_def)
  then show ?thesis
    by (subst REFUSAL_hd) (simp add: startswith_def)
qed

lemma REFUSAL_lower: "map ascii_lower REFUSAL = REFUSAL"
  by (simp add: REFUSAL_def ascii_def ascii_lower_def)

lemma refusal_nocase:
  assumes "startswith_nocase s REFUSAL"
  shows "startswith (py_lower L s) REFUSAL"
proof -
  let ?p = "take (length REFUSAL) s"
  from assms have eq: "map ascii_lower ?p = REFUSAL"
    by (simp add: startswith_nocase_def REFUSAL_lower)
  have "c < 128" if "c \<in> set ?p" for c
  proof -
    from that have "ascii_lower c \<in> set (map ascii_lower ?p)" by simp
    then have "ascii_lower c < 128" using REFUSAL_ascii by (simp only: eq)
    with ascii_lower_ge [of c] show ?thesis by simp
  qed
  then have "lower_from L [] (?p @ drop (length REFUSAL) s)
      = map ascii_lower ?p @ lower_from L ([] @ ?p) (drop (length REFUSAL) s)"
    by (intro lower_from_ascii) blast
  then have "py_lower L s = REFUSAL @ lower_from L ?p (drop (length REFUSAL) s)"
    by (simp add: py_lower_def eq)
  then show ?thesis by (simp add: startswith_def)
qed

lemma replace_hashes_simps:
  "str_replace [35, 35] [] [] = []"
  "str_replace [35, 35] [] [c] = [c]"
  "str_replace [35, 35] [] (c # d # r) =
     (if c = 35 \<and> d = 35 then str_replace [35, 35] [] r
      else c # str_replace [35, 35] [] (d # r))"
  by (auto simp: str_replace.simps)

lemma replace_hashes_Cons:
  "c \<noteq> 35 \<Longrightarrow> str_replace [35, 35] [] (c # r) = c # str_replace [35, 35] [] r"
  by (simp add: str_replace.simps)

lemma replace_hashes_left:
  "35 \<notin> set w \<Longrightarrow> str_replace [35, 35] [] (w @ s) = w @ str_replace [35, 35] [] s"
  by (induction w) (simp_all add: replace_hashes_Cons)

lemma replace_hashes_right:
  "35 \<notin> set w \<Longrightarrow> str_replace [35, 35] [] (s @ w) = str_replace [35, 35] [] s @ w"
proof (induction s rule: length_induct)
  case (1 s)
  show ?case
  proof (cases s)
    case Nil
    then show ?thesis using replace_hashes_left [of w "[]"] 1(2)
      by (simp add: replace_hashes_simps)
  next
    case (Cons c r)
    note s = Cons
    show ?thesis
    proof (cases r)
      case Nil
      show ?thesis
      proof (cases w)
        case Nil
        then show ?thesis by simp
      next
        case (Cons e w')
        with 1(2) have "e \<noteq> 35" by auto
        moreover have "str_replace [35, 35] [] (e # w') = e # w'"
          using replace_hashes_left [of w "[]"] 1(2) Cons by (simp add: replace_hashes_simps)
        ultimately show ?thesis using s Nil Cons
          by (simp add: replace_hashes_simps)
      qed
    next
      case (Cons d r')
      have a: "str_replace [35, 35] [] (r' @ w) = str_replace [35, 35] [] r' @ w"
        using 1(1) [rule_format, of r'] s Cons 1(2) by simp
      have "str_replace [35, 35] [] ((d # r') @ w) = str_replace [35, 35] [] (d # r') @ w"
        using 1(1) [rule_format, of "d # r'"] s Cons 1(2) by fastforce
      then have b': "str_replace [35, 35] [] (d # r' @ w) = str_replace [35, 35] [] (d # r') @ w"
        by simp
      show ?thesis using s Cons a b'
        by (simp add: replace_hashes_simps)
    qed
  qed
qed

lemma replace_hashes_absent:
  "\<not> sublist [35, 35] s \<Longrightarrow> str_replace [35, 35] [] s = s"
proof (induction s rule: length_induct)
  case (1 s)
  show ?case
  proof (cases s)
    case Nil
    then show ?thesis by (simp add: replace_hashes_simps)
  next
    case (Cons c r)
    note s = Cons
    from 1(2) s have nr: "\<not> sublist [35, 35] r"
      by (auto simp: sublist_Cons_right)
    with 1(1) s have r: "str_replace [35, 35] [] r = r" by simp
    show ?thesis
    proof (cases r)
      case Nil
      with s show ?thesis by (simp add: replace_hashes_simps)
    next
      case (Cons d r')
      from 1(2) s Cons have "\<not> (c = 35 \<and> d = 35)"
        by (auto simp: sublist_Cons_right)
      with s Cons r show ?thesis
        by (auto simp add: replace_hashes_simps)
    qed
  qed
qed

lemma isspace_not_hash: "isspace c \<Longrightarrow> c \<noteq> 35"
  by (auto simp: isspace_def)

lemma strip_replace_hashes:
  "py_strip (str_replace [35, 35] [] (py_strip s)) = py_strip (str_replace [35, 35] [] s)"
proof -
  obtain w1 w2 where s: "s = w1 @ py_strip s @ w2"
    and w1: "\<forall>c\<in>set w1. isspace c" and w2: "\<forall>c\<in>set w2. isspace c"
    using py_strip_decomp by blast
  from w1 w2 have h: "35 \<notin> set w1" "35 \<notin> set w2"
    using isspace_not_hash by blast+
  have "str_replace [35, 35] [] (w1 @ py_strip s @ w2)
      = w1 @ str_replace [35, 35] [] (py_strip s) @ w2"
    using h by (simp add: replace_hashes_left replace_hashes_right)
  then have "py_strip (str_replace [35, 35] [] (w1 @ py_strip s @ w2))
      = py_strip (str_replace [35, 35] [] (py_strip s))"
    using w1 w2 by (simp only: py_strip_pad)
  with s show ?thesis by simp
qed




section \<open>Properties of the renderer\<close>

lemmas eval_defs = render_line_def make_paragraph_def example_library_def ascii_def py_strip_def
  isspace_def startswith_def py_lower_def lower_char_def ascii_lower_def REFUSAL_def
  sub_leading_markers_def is_marker_def STAR_def BULLET_def SPACE_def NEWLINE_def
  no_case_table_def str_replace.simps

lemma hashes: "ascii ''##'' = [35, 35]" "ascii ''## '' = [35, 35, 32]"
  by (simp_all add: ascii_def)

lemma make_paragraph_accepted:
  "accepts R text style \<Longrightarrow> make_paragraph R text style = Inr (Paragraph text style)"
  by (simp add: make_paragraph_def)


lemma render_line_heading:
  assumes "startswith (py_strip line) (ascii ''##'')"
  shows "render_line R L line
    = Some (make_paragraph R (py_strip (str_replace (ascii ''##'') [] line)) Heading2)"
proof -
  from assms obtain r where s: "py_strip line = 35 # r"
    by (auto simp: startswith_def hashes prefix_def)
  have "\<not> startswith (py_lower L (35 # r)) REFUSAL"
    by (rule not_refusal) (simp add: ascii_lower_def)
  with assms s have "render_line R L line
    = Some (make_paragraph R (py_strip (str_replace [35, 35] [] (py_strip line))) Heading2)"
    by (simp add: render_line_def hashes)
  then show ?thesis by (simp add: strip_replace_hashes hashes)
qed




text \<open>
  Claim C5, amended. A line whose trimmed form begins with \<^verbatim>\<open>## \<close> and has no further
  \<^verbatim>\<open>##\<close> after that marker, and whose text without the marker the layout library accepts,
  becomes a heading whose text is the trimmed line with the marker removed, trimmed again.
\<close>

theorem heading_marker_removed:
  assumes "startswith (py_strip line) (ascii ''## '')"
    and "\<not> sublist (ascii ''##'') (drop 3 (py_strip line))"
    and "accepts R (py_strip (drop 3 (py_strip line))) Heading2"
  shows "render_line R L line
    = Some (Inr (Paragraph (py_strip (drop 3 (py_strip line))) Heading2))"
proof -
  from assms(1) obtain r where s: "py_strip line = [35, 35, 32] @ r"
    by (auto simp: startswith_def hashes prefix_def)
  with assms(2) have "str_replace [35, 35] [] r = r"
    by (simp add: hashes replace_hashes_absent)
  with s have "str_replace [35, 35] [] (py_strip line) = [32] @ r @ []"
    by (simp add: replace_hashes_simps replace_hashes_Cons)
  moreover have "py_strip ([32] @ r @ []) = py_strip r"
    by (rule py_strip_pad) (simp_all add: isspace_def)
  ultimately have "py_strip (str_replace [35, 35] [] (py_strip line)) = py_strip r"
    by simp
  then have "py_strip (str_replace [35, 35] [] line) = py_strip r"
    by (simp only: strip_replace_hashes)
  then have t: "py_strip (str_replace (ascii ''##'') [] line) = py_strip (drop 3 (py_strip line))"
    using s by (simp add: hashes)
  from assms(1) have "startswith (py_strip line) (ascii ''##'')"
    by (auto simp: startswith_def hashes prefix_def)
  then have "render_line R L line
    = Some (make_paragraph R (py_strip (drop 3 (py_strip line))) Heading2)"
    by (simp add: render_line_heading t)
  with assms(3) show ?thesis by (simp add: make_paragraph_accepted)
qed

text \<open>The example of C5: \<^verbatim>\<open>## Key Points\<close> gives the heading \<^verbatim>\<open>Key Points\<close>.\<close>

theorem heading_marker_removed_witness:
  "startswith (py_strip (ascii ''## Key Points'')) (ascii ''## '')
   \<and> \<not> sublist (ascii ''##'') (drop 3 (py_strip (ascii ''## Key Points'')))
   \<and> accepts example_library (ascii ''Key Points'') Heading2
   \<and> render_line example_library no_case_table (ascii ''## Key Points'')
       = Some (Inr (Paragraph (ascii ''Key Points'') Heading2))"
proof -
  have h1: "startswith (py_strip (ascii ''## Key Points'')) (ascii ''## '')"
    by (simp add: eval_defs)
  have h2: "\<not> sublist (ascii ''##'') (drop 3 (py_strip (ascii ''## Key Points'')))"
    by (simp add: eval_defs sublist_code)
  have e: "py_strip (drop 3 (py_strip (ascii ''## Key Points''))) = ascii ''Key Points''"
    by (simp add: eval_defs)
  have a: "accepts example_library (ascii ''Key Points'') Heading2"
    by (simp add: eval_defs)
  then have h3: "accepts example_library
      (py_strip (drop 3 (py_strip (ascii ''## Key Points'')))) Heading2"
    by (simp only: e)
  from heading_marker_removed [OF h1 h2 h3, of no_case_table]
  have "render_line example_library no_case_table (ascii ''## Key Points'')
       = Some (Inr (Paragraph (ascii ''Key Points'') Heading2))"
    by (simp only: e)
  with h1 h2 a show ?thesis by blast
qed

text \<open>
  Claim C5 as the specification states it fails where the layout library refuses the
  text: the trimmed line \<^verbatim>\<open>## if a<b then\<close> begins with \<^verbatim>\<open>## \<close> and has no further
  marker, and it gives no heading, since building the paragraph raises \<^verbatim>\<open>ValueError\<close>.
\<close>

theorem heading_marker_removed_counterexample:
  "startswith (py_strip (ascii ''## if a<b then'')) (ascii ''## '')
   \<and> \<not> sublist (ascii ''##'') (drop 3 (py_strip (ascii ''## if a<b then'')))
   \<and> render_line example_library no_case_table (ascii ''## if a<b then'') = Some (Inl ValueError)"
  by (simp add: eval_defs sublist_code)

text \<open>
  A second \<^verbatim>\<open>##\<close> in a heading line is deleted with the first: \<^verbatim>\<open>## a ## b\<close>, whose text
  after the leading marker is \<^verbatim>\<open>a ## b\<close>, gives the heading \<^verbatim>\<open>a  b\<close>.
\<close>

lemma inner_marker_deleted:
  "startswith (py_strip (ascii ''## a ## b'')) (ascii ''## '')
   \<and> drop 3 (py_strip (ascii ''## a ## b'')) = ascii ''a ## b''
   \<and> render_line example_library no_case_table (ascii ''## a ## b'')
       = Some (Inr (Paragraph (ascii ''a  b'') Heading2))"
  by (simp add: eval_defs)

lemma render_line_blank: "list_all isspace line \<Longrightarrow> render_line R L line = None"
  using py_strip_Nil_iff [of line] by (simp add: render_line_def list_all_iff)

lemma render_line_refusal:
  "startswith_nocase (py_strip line) REFUSAL \<Longrightarrow> render_line R L line = None"
  by (simp add: render_line_def refusal_nocase)

lemma story_loop_skip:
  "render_line R L line = None \<Longrightarrow>
   story_loop R L story (pre @ line # post) = story_loop R L story (pre @ post)"
  by (induction pre arbitrary: story) (simp_all split: option.splits sum.splits)

text \<open>
  Claim C7. A line of white space only, and a line whose trimmed form begins with the
  refusal phrase when case is ignored, gives no block: the loop goes on with the story
  it had, so its outcome is the one without that line.
\<close>

theorem blank_and_refusal_lines_dropped:
  assumes "list_all isspace line \<or> startswith_nocase (py_strip line) REFUSAL"
  shows "render_line R L line = None
    \<and> story_loop R L story (pre @ line # post) = story_loop R L story (pre @ post)"
proof -
  from assms have "render_line R L line = None"
    using render_line_blank render_line_refusal by blast
  then show ?thesis by (simp add: story_loop_skip)
qed

text \<open>The theorem of C7 at a refusal line in mixed case and at a line of three spaces.\<close>

theorem blank_and_refusal_lines_dropped_witness:
  "startswith_nocase (py_strip (ascii ''  Please PROVIDE the transcript of the lecture.'')) REFUSAL
   \<and> render_line example_library no_case_table
       (ascii ''  Please PROVIDE the transcript of the lecture.'') = None
   \<and> story_loop example_library no_case_table []
       [ascii ''## A'', ascii ''  Please PROVIDE the transcript of the lecture.'', ascii ''b'']
       = story_loop example_library no_case_table [] [ascii ''## A'', ascii ''b'']
   \<and> list_all isspace [32, 9, 160]
   \<and> render_line example_library no_case_table [32, 9, 160] = None"
proof -
  let ?l = "ascii ''  Please PROVIDE the transcript of the lecture.''"
  have h: "startswith_nocase (py_strip ?l) REFUSAL"
    by (simp add: eval_defs startswith_nocase_def)
  have k: "list_all isspace [32, 9, 160]"
    by (simp add: isspace_def)
  from h have h': "list_all isspace ?l \<or> startswith_nocase (py_strip ?l) REFUSAL" ..
  from k have k': "list_all isspace [32, 9, 160]
    \<or> startswith_nocase (py_strip [32, 9, 160]) REFUSAL" ..
  show ?thesis
    using h k
      blank_and_refusal_lines_dropped [OF h', of example_library no_case_table "[]"
        "[ascii ''## A'']" "[ascii ''b'']"]
      blank_and_refusal_lines_dropped [OF k', of example_library no_case_table "[]" "[]" "[]"]
    by simp
qed

lemma render_line_raises: "render_line R L line = Some (Inl e) \<Longrightarrow> e = ValueError"
  by (auto simp: render_line_def make_paragraph_def Let_def split: if_splits)

lemma render_line_Paragraph: "render_line R L line = Some (Inr b) \<Longrightarrow> is_Paragraph b"
  by (auto simp: render_line_def make_paragraph_def Let_def split: if_splits)

lemma story_loop_Paragraphs:
  "story_loop R L story lines = Inr blocks \<Longrightarrow> list_all is_Paragraph story \<Longrightarrow>
   list_all is_Paragraph blocks"
proof (induction lines arbitrary: story)
  case Nil
  then show ?case by simp
next
  case (Cons line lines)
  show ?case
  proof (cases "render_line R L line")
    case None
    with Cons show ?thesis by simp
  next
    case (Some x)
    show ?thesis
    proof (cases x)
      case (Inl e)
      with Some Cons.prems show ?thesis by simp
    next
      case (Inr b)
      with Some have "is_Paragraph b" by (simp add: render_line_Paragraph)
      with Cons.prems(2) have "list_all is_Paragraph (story @ [b])" by simp
      moreover from Some Inr Cons.prems(1) have "story_loop R L (story @ [b]) lines = Inr blocks"
        by simp
      ultimately show ?thesis by (rule Cons.IH [rotated])
    qed
  qed
qed

lemma story_loop_succeeds:
  "list_all (\<lambda>line. render_line R L line \<noteq> Some (Inl ValueError)) lines \<Longrightarrow>
   \<exists>blocks. story_loop R L story lines = Inr blocks"
proof (induction lines arbitrary: story)
  case Nil
  then show ?case by simp
next
  case (Cons line lines)
  then show ?case
    by (cases "render_line R L line")
      (auto split: sum.splits dest: render_line_raises)
qed

lemma story_loop_raises:
  "list_ex (\<lambda>line. render_line R L line = Some (Inl ValueError)) lines \<Longrightarrow>
   story_loop R L story lines = Inl ValueError"
proof (induction lines arbitrary: story)
  case Nil
  then show ?case by simp
next
  case (Cons line lines)
  then show ?case
    by (cases "render_line R L line")
      (auto split: sum.splits dest: render_line_raises)
qed

lemma story_loop_dropped:
  "list_all (\<lambda>line. render_line R L line = None) lines \<Longrightarrow> story_loop R L story lines = Inr story"
  by (induction lines) simp_all

lemma filter_Spacer_Paragraphs: "list_all is_Paragraph bs \<Longrightarrow> filter is_Spacer bs = []"
  by (induction bs) (auto simp: flowable.disc_eq_case split: flowable.splits)

lemma build_story_Inr:
  "build_story R L summary_text = Inr story \<longleftrightarrow>
   (\<exists>blocks. story_loop R L [] (split_on NEWLINE (py_strip summary_text)) = Inr blocks
      \<and> story = blocks @ [Spacer 1 20])"
  by (auto simp: build_story_def split: sum.splits)

text \<open>
  Claim C8, amended. When \<^verbatim>\<open>create_pdf\<close> builds its story, the story is paragraphs
  followed by one spacer: its last block is the spacer and it has no other. The story is
  built when the layout library accepts the text of every paragraph; the story of the
  empty text, and of a text whose lines are all dropped, is the spacer alone. When the
  library refuses the text of a line, \<^verbatim>\<open>ValueError\<close> is raised in the loop and there is no
  story and no spacer.
\<close>

theorem trailing_spacer:
  "(build_story R L summary_text = Inr story \<longrightarrow>
      last story = Spacer 1 20
      \<and> filter is_Spacer story = [Spacer 1 20]
      \<and> list_all is_Paragraph (butlast story)
      \<and> story_loop R L [] (split_on NEWLINE (py_strip summary_text)) = Inr (butlast story))
   \<and> (list_all (\<lambda>line. render_line R L line \<noteq> Some (Inl ValueError))
         (split_on NEWLINE (py_strip summary_text)) \<longrightarrow>
       (\<exists>blocks. build_story R L summary_text = Inr (blocks @ [Spacer 1 20])))
   \<and> (list_ex (\<lambda>line. render_line R L line = Some (Inl ValueError))
         (split_on NEWLINE (py_strip summary_text)) \<longrightarrow>
       build_story R L summary_text = Inl ValueError)
   \<and> build_story R L [] = Inr [Spacer 1 20]
   \<and> (list_all (\<lambda>line. render_line R L line = None) (split_on NEWLINE (py_strip summary_text))
        \<longrightarrow> build_story R L summary_text = Inr [Spacer 1 20])"
proof (intro conjI impI)
  let ?lines = "split_on NEWLINE (py_strip summary_text)"
  assume "build_story R L summary_text = Inr story"
  then obtain blocks where b: "story_loop R L [] ?lines = Inr blocks"
    and s: "story = blocks @ [Spacer 1 20]"
    by (auto simp: build_story_Inr)
  from b have p: "list_all is_Paragraph blocks"
    by (rule story_loop_Paragraphs) simp
  from s show "last story = Spacer 1 20" by simp
  from s p show "filter is_Spacer story = [Spacer 1 20]"
    by (simp add: filter_Spacer_Paragraphs)
  from s p show "list_all is_Paragraph (butlast story)" by simp
  from s b show "story_loop R L [] ?lines = Inr (butlast story)" by simp
next
  let ?lines = "split_on NEWLINE (py_strip summary_text)"
  assume "list_all (\<lambda>line. render_line R L line \<noteq> Some (Inl ValueError)) ?lines"
  then obtain blocks where "story_loop R L [] ?lines = Inr blocks"
    using story_loop_succeeds by blast
  then have "build_story R L summary_text = Inr (blocks @ [Spacer 1 20])"
    by (simp add: build_story_def)
  then show "\<exists>blocks. build_story R L summary_text = Inr (blocks @ [Spacer 1 20])" ..
next
  assume "list_ex (\<lambda>line. render_line R L line = Some (Inl ValueError))
         (split_on NEWLINE (py_strip summary_text))"
  then show "build_story R L summary_text = Inl ValueError"
    by (simp add: build_story_def story_loop_raises)
next
  show "build_story R L [] = Inr [Spacer 1 20]"
    by (simp add: build_story_def py_strip_def render_line_def)
next
  assume "list_all (\<lambda>line. render_line R L line = None)
    (split_on NEWLINE (py_strip summary_text))"
  then show "build_story R L summary_text = Inr [Spacer 1 20]"
    by (simp add: build_story_def story_loop_dropped)
qed

text \<open>
  The theorem of C8 at a text of a heading and a paragraph, and at a text whose lines
  are all dropped.
\<close>

theorem trailing_spacer_witness:
  "build_story example_library no_case_table (ascii ''## A'' @ 10 # ascii ''text'')
     = Inr [Paragraph (ascii ''A'') Heading2, Paragraph (ascii ''text'') BodyText, Spacer 1 20]
   \<and> last [Paragraph (ascii ''A'') Heading2, Paragraph (ascii ''text'') BodyText, Spacer 1 20]
       = Spacer 1 20
   \<and> filter is_Spacer
        [Paragraph (ascii ''A'') Heading2, Paragraph (ascii ''text'') BodyText, Spacer 1 20]
       = [Spacer 1 20]
   \<and> list_all (\<lambda>line. render_line example_library no_case_table line = None)
       (split_on NEWLINE (py_strip (ascii ''please provide the transcript'' @ [10, 32, 10, 9])))
   \<and> build_story example_library no_case_table
        (ascii ''please provide the transcript'' @ [10, 32, 10, 9])
       = Inr [Spacer 1 20]"
proof -
  let ?t = "ascii ''please provide the transcript'' @ [10, 32, 10, 9]"
  let ?u = "ascii ''## A'' @ 10 # ascii ''text''"
  let ?s = "[Paragraph (ascii ''A'') Heading2, Paragraph (ascii ''text'') BodyText, Spacer 1 20]"
  have h: "list_all (\<lambda>line. render_line example_library no_case_table line = None)
     (split_on NEWLINE (py_strip ?t))"
    by (simp add: eval_defs)
  have u: "build_story example_library no_case_table ?u = Inr ?s"
    by (simp add: build_story_def eval_defs)
  from h trailing_spacer [of example_library no_case_table ?t]
  have a: "build_story example_library no_case_table ?t = Inr [Spacer 1 20]"
    by blast
  from u trailing_spacer [of example_library no_case_table ?u ?s]
  have b: "last ?s = Spacer 1 20" and c: "filter is_Spacer ?s = [Spacer 1 20]"
    by blast+
  from h u a b c show ?thesis by blast
qed

text \<open>
  Claim C8 as the specification states it fails at the text \<^verbatim>\<open>if a<b then\<close>: the layout
  library refuses the paragraph, the loop raises \<^verbatim>\<open>ValueError\<close>, and no block sequence
  with a trailing spacer is built.
\<close>

theorem trailing_spacer_counterexample:
  "build_story example_library no_case_table (ascii ''if a<b then'') = Inl ValueError
   \<and> create_pdf example_library no_case_table (ascii ''if a<b then'') = Inl ValueError"
  by (simp add: create_pdf_def build_story_def eval_defs)







section \<open>Properties of the summarization call\<close>

lemma summarize_request:
  "fst (summarize_full_text API_KEY post text) =
     \<lparr>url = ascii ''https://api.groq.com/openai/v1/chat/completions'',
      headers = [(ascii ''Authorization'', ascii ''Bearer '' @ API_KEY),
                 (ascii ''Content-Type'', ascii ''application/json'')],
      json = JObject
        [(ascii ''model'', JString MODEL_NAME),
         (ascii ''messages'',
            JArray [JObject [(ascii ''role'', JString (ascii ''user'')),
                             (ascii ''content'', JString (PROMPT_HEAD @ text @ PROMPT_TAIL))]]),
         (ascii ''temperature'', JNumber 0.3)]\<rparr>"
  by (simp add: summarize_full_text_def Let_def)

lemma summarize_result:
  "snd (summarize_full_text API_KEY post text) =
     (case post (fst (summarize_full_text API_KEY post text)) of
        Inl e \<Rightarrow> Inl e
      | Inr response \<Rightarrow> handle_response response)"
  by (simp add: summarize_full_text_def Let_def)

lemma keys_distinct:
  "ascii ''model'' \<noteq> ascii ''messages''" "ascii ''model'' \<noteq> ascii ''temperature''"
  "ascii ''messages'' \<noteq> ascii ''temperature''" "ascii ''role'' \<noteq> ascii ''content''"
  by (simp_all add: ascii_def)

text \<open>
  Claim C1. For every transcript the body of the request holds the fixed model
  identifier, the fixed temperature 0.3 and one message of the user, whose content is
  the fixed text before the field, the transcript as it is, and the fixed text after
  it; the transcript is read back from the content at the length of the text before.
\<close>

theorem request_body_embeds_transcript:
  "getitem_key (json (fst (summarize_full_text API_KEY post text))) (ascii ''model'')
     = Inr (JString MODEL_NAME)
   \<and> getitem_key (json (fst (summarize_full_text API_KEY post text))) (ascii ''temperature'')
     = Inr (JNumber 0.3)
   \<and> getitem_key (json (fst (summarize_full_text API_KEY post text))) (ascii ''messages'')
     = Inr (JArray [JObject [(ascii ''role'', JString (ascii ''user'')),
                             (ascii ''content'', JString (PROMPT_HEAD @ text @ PROMPT_TAIL))]])
   \<and> take (length text) (drop (length PROMPT_HEAD) (PROMPT_HEAD @ text @ PROMPT_TAIL)) = text
   \<and> MODEL_NAME = ascii ''meta-llama/llama-4-scout-17b-16e-instruct''"
  using keys_distinct by (simp add: summarize_request MODEL_NAME_def)


text \<open>
  The theorem of C1 at a transcript of two lines.
\<close>

theorem request_body_embeds_transcript_witness:
  "getitem_key (json (fst (summarize_full_text (ascii ''k'') (\<lambda>r. Inl RequestException)
      (ascii ''one'' @ [NEWLINE] @ ascii ''two'')))) (ascii ''messages'')
     = Inr (JArray [JObject [(ascii ''role'', JString (ascii ''user'')),
          (ascii ''content'',
             JString (PROMPT_HEAD @ (ascii ''one'' @ [NEWLINE] @ ascii ''two'') @ PROMPT_TAIL))]])"
  using request_body_embeds_transcript
    [of "ascii ''k''" "\<lambda>r. Inl RequestException" "ascii ''one'' @ [NEWLINE] @ ascii ''two''"]
  by blast

lemma handle_response_error:
  "status_code r \<noteq> 200 \<Longrightarrow>
   handle_response r
     = Inr (JString (ascii ''ERROR: '' @ str_int (status_code r) @ ascii '' - '' @ response_text r))"
  by (simp add: handle_response_def)

lemma error_prefix: "startswith (ascii ''ERROR: '' @ s) (ascii ''ERROR'')"
  by (simp add: startswith_def ascii_def)

lemma handle_response_content:
  assumes "status_code r = 200"
    and "response_json r = Some (JObject items)"
    and "map_of items (ascii ''choices'') = Some (JArray (JObject choice # others))"
    and "map_of choice (ascii ''message'') = Some (JObject message)"
    and "map_of message (ascii ''content'') = Some v"
  shows "handle_response r = Inr v"
  using assms by (simp add: handle_response_def)

text \<open>
  Claim C2. For a response whose status is not 200 the call returns the string made of
  \<^verbatim>\<open>ERROR: \<close>, the status code, \<^verbatim>\<open> - \<close> and the raw body, which starts with
  \<^verbatim>\<open>ERROR\<close> and takes nothing from the parsed body. For a response with status 200 whose
  body has the content of the message of the first choice, the call returns that
  content.
\<close>

theorem non_200_returns_error_string:
  "(status_code r \<noteq> 200 \<longrightarrow>
      handle_response r
        = Inr (JString (ascii ''ERROR: '' @ str_int (status_code r) @ ascii '' - ''
                 @ response_text r))
      \<and> startswith (ascii ''ERROR: '' @ str_int (status_code r) @ ascii '' - ''
                 @ response_text r) (ascii ''ERROR''))
   \<and> (post (fst (summarize_full_text API_KEY post text)) = Inr r \<and> status_code r \<noteq> 200 \<longrightarrow>
        snd (summarize_full_text API_KEY post text)
          = Inr (JString (ascii ''ERROR: '' @ str_int (status_code r) @ ascii '' - ''
                   @ response_text r)))
   \<and> (status_code r = 200
        \<and> response_json r = Some (JObject items)
        \<and> map_of items (ascii ''choices'') = Some (JArray (JObject choice # others))
        \<and> map_of choice (ascii ''message'') = Some (JObject message)
        \<and> map_of message (ascii ''content'') = Some v \<longrightarrow>
        handle_response r = Inr v
        \<and> (post (fst (summarize_full_text API_KEY post text)) = Inr r \<longrightarrow>
             snd (summarize_full_text API_KEY post text) = Inr v))"
proof (intro conjI impI)
  assume "status_code r \<noteq> 200"
  then show "handle_response r
        = Inr (JString (ascii ''ERROR: '' @ str_int (status_code r) @ ascii '' - ''
                 @ response_text r))"
    by (rule handle_response_error)
next
  show "startswith (ascii ''ERROR: '' @ str_int (status_code r) @ ascii '' - ''
                 @ response_text r) (ascii ''ERROR'')"
    by (rule error_prefix)
next
  assume "post (fst (summarize_full_text API_KEY post text)) = Inr r \<and> status_code r \<noteq> 200"
  then show "snd (summarize_full_text API_KEY post text)
          = Inr (JString (ascii ''ERROR: '' @ str_int (status_code r) @ ascii '' - ''
                   @ response_text r))"
    by (simp add: summarize_result handle_response_error)
next
  assume a: "status_code r = 200
        \<and> response_json r = Some (JObject items)
        \<and> map_of items (ascii ''choices'') = Some (JArray (JObject choice # others))
        \<and> map_of choice (ascii ''message'') = Some (JObject message)
        \<and> map_of message (ascii ''content'') = Some v"
  then show h: "handle_response r = Inr v"
    using handle_response_content by blast
  assume "post (fst (summarize_full_text API_KEY post text)) = Inr r"
  with h show "snd (summarize_full_text API_KEY post text) = Inr v"
    by (simp add: summarize_result)
qed

lemma str_int_429: "str_int 429 = ascii ''429''"
  by (simp add: str_int_def str_nat.simps ascii_def)

text \<open>
  The theorem of C2 at a response with status 429 and at a response with a summary.
\<close>

theorem non_200_returns_error_string_witness:
  "status_code refusal_reply \<noteq> 200
   \<and> handle_response refusal_reply = Inr (JString (ascii ''ERROR: 429 - slow down''))
   \<and> snd (summarize_full_text (ascii ''k'') refusal_post (ascii ''one''))
       = Inr (JString (ascii ''ERROR: 429 - slow down''))
   \<and> status_code summary_reply = 200
   \<and> snd (summarize_full_text (ascii ''k'') summary_post (ascii ''one''))
       = Inr (JString (ascii ''## Notes''))"
proof -
  have a: "status_code refusal_reply \<noteq> 200"
    by (simp add: refusal_reply_def)
  have b: "refusal_post (fst (summarize_full_text (ascii ''k'') refusal_post (ascii ''one'')))
    = Inr refusal_reply"
    by (simp add: refusal_post_def)
  have c: "ascii ''ERROR: '' @ str_int (status_code refusal_reply) @ ascii '' - ''
      @ response_text refusal_reply = ascii ''ERROR: 429 - slow down''"
    by (simp add: refusal_reply_def str_int_429) (simp add: ascii_def)
  have d: "status_code summary_reply = 200
    \<and> response_json summary_reply = Some (JObject
        [(ascii ''id'', JString (ascii ''c1'')),
         (ascii ''choices'', JArray
            (JObject [(ascii ''index'', JNumber 0),
                      (ascii ''message'', JObject
                         [(ascii ''role'', JString (ascii ''assistant'')),
                          (ascii ''content'', JString (ascii ''## Notes''))])] # []))])
    \<and> map_of [(ascii ''id'', JString (ascii ''c1'')),
         (ascii ''choices'', JArray
            (JObject [(ascii ''index'', JNumber 0),
                      (ascii ''message'', JObject
                         [(ascii ''role'', JString (ascii ''assistant'')),
                          (ascii ''content'', JString (ascii ''## Notes''))])] # []))]
        (ascii ''choices'')
       = Some (JArray (JObject [(ascii ''index'', JNumber 0),
                      (ascii ''message'', JObject
                         [(ascii ''role'', JString (ascii ''assistant'')),
                          (ascii ''content'', JString (ascii ''## Notes''))])] # []))
    \<and> map_of [(ascii ''index'', JNumber 0),
                      (ascii ''message'', JObject
                         [(ascii ''role'', JString (ascii ''assistant'')),
                          (ascii ''content'', JString (ascii ''## Notes''))])]
         (ascii ''message'')
       = Some (JObject [(ascii ''role'', JString (ascii ''assistant'')),
                          (ascii ''content'', JString (ascii ''## Notes''))])
    \<and> map_of [(ascii ''role'', JString (ascii ''assistant'')),
                          (ascii ''content'', JString (ascii ''## Notes''))]
         (ascii ''content'')
       = Some (JString (ascii ''## Notes''))"
    by (simp add: summary_reply_def ascii_def)
  have e: "summary_post (fst (summarize_full_text (ascii ''k'') summary_post (ascii ''one'')))
    = Inr summary_reply"
    by (simp add: summary_post_def)
  from a b non_200_returns_error_string [of refusal_reply refusal_post "ascii ''k''" "ascii ''one''"]
  have 1: "handle_response refusal_reply
      = Inr (JString (ascii ''ERROR: '' @ str_int (status_code refusal_reply) @ ascii '' - ''
      @ response_text refusal_reply))"
    and 2: "snd (summarize_full_text (ascii ''k'') refusal_post (ascii ''one''))
      = Inr (JString (ascii ''ERROR: '' @ str_int (status_code refusal_reply) @ ascii '' - ''
      @ response_text refusal_reply))"
    by blast+
  from d e non_200_returns_error_string [of summary_reply summary_post "ascii ''k''" "ascii ''one''"]
  have 3: "snd (summarize_full_text (ascii ''k'') summary_post (ascii ''one''))
       = Inr (JString (ascii ''## Notes''))"
    by blast
  from a d 1 2 3 show ?thesis
    by (simp only: c simp_thms)
qed

section \<open>Properties of the workflow\<close>

lemma file_name_stripped: "py_strip name \<noteq> [] \<Longrightarrow> file_name name = py_strip name @ ascii ''.pdf''"
  by (simp add: file_name_def)

lemma file_name_default: "list_all isspace name \<Longrightarrow> file_name name = ascii ''summary.pdf''"
  using py_strip_Nil_iff [of name] by (simp add: file_name_def list_all_iff ascii_def)

lemma run_cached:
  assumes "uploaded_file w = Some (Inr transcript)"
    and "full_summary_cached st = Some (Some summary)"
  shows "run_script R L API_KEY post w st = show_summary R L w st [] summary"
  using assms by (simp add: run_script_def)

lemma show_summary_download:
  "Download_button n pdf \<in> set (shown (show_summary R L w st reqs summary)) \<Longrightarrow>
   n = file_name (pdf_name w) \<and> create_pdf R L summary = Inr pdf"
  by (auto simp: show_summary_def Let_def split: if_splits sum.splits)

lemma run_script_cases:
  obtains
    (no_upload) "uploaded_file w = None"
      "run_script R L API_KEY post w st
         = \<lparr>session = st, requests = [], shown = [Info_upload], ending = Complete\<rparr>"
  | (undecodable) e where "uploaded_file w = Some (Inl e)"
      "run_script R L API_KEY post w st
         = \<lparr>session = st, requests = [], shown = [], ending = Raised e\<rparr>"
  | (cached) transcript summary where "uploaded_file w = Some (Inr transcript)"
      "full_summary_cached st = Some (Some summary)"
      "run_script R L API_KEY post w st = show_summary R L w st [] summary"
  | (raised) transcript req e where "uploaded_file w = Some (Inr transcript)"
      "full_summary_cached st = None \<or> full_summary_cached st = Some None"
      "summarize_full_text API_KEY post transcript = (req, Inl e)"
      "run_script R L API_KEY post w st
         = \<lparr>session = st\<lparr>full_summary_cached := Some None\<rparr>, requests = [req],
            shown = [Info_summarizing], ending = Raised e\<rparr>"
  | (failed) transcript req summary where "uploaded_file w = Some (Inr transcript)"
      "full_summary_cached st = None \<or> full_summary_cached st = Some None"
      "summarize_full_text API_KEY post transcript = (req, Inr (JString summary))"
      "startswith summary (ascii ''ERROR'')"
      "run_script R L API_KEY post w st
         = \<lparr>session = st\<lparr>full_summary_cached := Some None\<rparr>, requests = [req],
            shown = [Info_summarizing, Error summary], ending = Stopped\<rparr>"
  | (fresh) transcript req summary where "uploaded_file w = Some (Inr transcript)"
      "full_summary_cached st = None \<or> full_summary_cached st = Some None"
      "summarize_full_text API_KEY post transcript = (req, Inr (JString summary))"
      "\<not> startswith summary (ascii ''ERROR'')"
      "run_script R L API_KEY post w st
         = show_summary R L w (st\<lparr>full_summary_cached := Some (Some summary)\<rparr>) [req] summary"
  | (not_a_string) transcript req v where "uploaded_file w = Some (Inr transcript)"
      "full_summary_cached st = None \<or> full_summary_cached st = Some None"
      "summarize_full_text API_KEY post transcript = (req, Inr v)"
      "\<forall>s. v \<noteq> JString s"
      "run_script R L API_KEY post w st
         = \<lparr>session = st\<lparr>full_summary_cached := Some None\<rparr>, requests = [req],
            shown = [Info_summarizing], ending = Raised AttributeError\<rparr>"
proof (cases "uploaded_file w")
  case None
  then show ?thesis using no_upload by (simp add: run_script_def)
next
  case (Some u)
  show ?thesis
  proof (cases u)
    case (Inl e)
    with Some show ?thesis using undecodable by (simp add: run_script_def)
  next
    case (Inr transcript)
    note up = Some Inr
    show ?thesis
    proof (cases "\<exists>summary. full_summary_cached st = Some (Some summary)")
      case True
      then obtain summary where "full_summary_cached st = Some (Some summary)" by blast
      with up show ?thesis using cached by (simp add: run_script_def)
    next
      case False
      then have empty: "full_summary_cached st = None \<or> full_summary_cached st = Some None"
        by (cases "full_summary_cached st") auto
      obtain req res where sm: "summarize_full_text API_KEY post transcript = (req, res)"
        by (cases "summarize_full_text API_KEY post transcript")
      show ?thesis
      proof (cases res)
        case (Inl e)
        with up empty sm show ?thesis using raised [of transcript req e]
          by (auto simp: run_script_def)
      next
        case (Inr v)
        show ?thesis
        proof (cases v)
          case (JString summary)
          show ?thesis
          proof (cases "startswith summary (ascii ''ERROR'')")
            case True
            with up empty sm Inr JString show ?thesis using failed [of transcript req summary]
              by (auto simp: run_script_def)
          next
            case False
            with up empty sm Inr JString show ?thesis using fresh [of transcript req summary]
              by (auto simp: run_script_def)
          qed
        qed (use up empty sm Inr not_a_string [of transcript req v] in
              \<open>auto simp: run_script_def\<close>)
      qed
    qed
  qed
qed

lemma summarize_success:
  assumes "summarize_full_text API_KEY post transcript = (req, Inr (JString summary))"
    and "\<not> startswith summary (ascii ''ERROR'')"
  shows "\<exists>response. post (fst (summarize_full_text API_KEY post transcript)) = Inr response
    \<and> status_code response = 200 \<and> handle_response response = Inr (JString summary)"
proof -
  from assms(1) have res: "snd (summarize_full_text API_KEY post transcript) = Inr (JString summary)"
    by simp
  then obtain response
    where p: "post (fst (summarize_full_text API_KEY post transcript)) = Inr response"
      and h: "handle_response response = Inr (JString summary)"
    by (auto simp: summarize_result split: sum.splits)
  have "status_code response = 200"
  proof (rule ccontr)
    assume "status_code response \<noteq> 200"
    with h have "summary = ascii ''ERROR: '' @ str_int (status_code response) @ ascii '' - ''
        @ response_text response"
      by (simp add: handle_response_error)
    with assms(2) show False by (simp add: error_prefix)
  qed
  with p h show ?thesis by blast
qed

text \<open>
  Claim C4. When the call returns a string that starts with \<^verbatim>\<open>ERROR\<close>, the run shows
  that string and stops: the page has the notice and the error and no download button,
  and the slot of the session holds no summary. A run that finds the slot without a
  summary and leaves a summary in it has had a response with status 200 whose content
  is that summary, and the summary does not start with \<^verbatim>\<open>ERROR\<close>.
\<close>

theorem error_summary_halts_run:
  "(uploaded_file w = Some (Inr transcript)
      \<and> (full_summary_cached st = None \<or> full_summary_cached st = Some None)
      \<and> summarize_full_text API_KEY post transcript = (req, Inr (JString summary))
      \<and> startswith summary (ascii ''ERROR'') \<longrightarrow>
      run_script R L API_KEY post w st
        = \<lparr>session = st\<lparr>full_summary_cached := Some None\<rparr>, requests = [req],
           shown = [Info_summarizing, Error summary], ending = Stopped\<rparr>)
   \<and> ((full_summary_cached st = None \<or> full_summary_cached st = Some None)
      \<and> full_summary_cached (session (run_script R L API_KEY post w st)) = Some (Some cached) \<longrightarrow>
      (\<exists>text response.
         uploaded_file w = Some (Inr text)
         \<and> post (fst (summarize_full_text API_KEY post text)) = Inr response
         \<and> status_code response = 200
         \<and> handle_response response = Inr (JString cached)
         \<and> \<not> startswith cached (ascii ''ERROR'')))"
proof (intro conjI impI)
  assume a: "uploaded_file w = Some (Inr transcript)
      \<and> (full_summary_cached st = None \<or> full_summary_cached st = Some None)
      \<and> summarize_full_text API_KEY post transcript = (req, Inr (JString summary))
      \<and> startswith summary (ascii ''ERROR'')"
  then show "run_script R L API_KEY post w st
        = \<lparr>session = st\<lparr>full_summary_cached := Some None\<rparr>, requests = [req],
           shown = [Info_summarizing, Error summary], ending = Stopped\<rparr>"
    by (cases rule: run_script_cases [of w R L API_KEY post st]) auto
next
  assume b: "(full_summary_cached st = None \<or> full_summary_cached st = Some None)
      \<and> full_summary_cached (session (run_script R L API_KEY post w st)) = Some (Some cached)"
  show "\<exists>text response.
         uploaded_file w = Some (Inr text)
         \<and> post (fst (summarize_full_text API_KEY post text)) = Inr response
         \<and> status_code response = 200
         \<and> handle_response response = Inr (JString cached)
         \<and> \<not> startswith cached (ascii ''ERROR'')"
  proof (cases rule: run_script_cases [of w R L API_KEY post st])
    case (fresh transcript req summary)
    with b have "cached = summary"
      by (auto simp: show_summary_def Let_def split: if_splits sum.splits)
    with fresh summarize_success [OF fresh(3,4)] show ?thesis by blast
  qed (use b in auto)
qed

lemma show_summary_fields:
  "requests (show_summary R L w st reqs summary) = reqs"
  "Button_regenerate \<in> set (shown (show_summary R L w st reqs summary))"
  "regenerate_clicked w \<Longrightarrow> ending (show_summary R L w st reqs summary) = Rerun"
  "regenerate_clicked w \<Longrightarrow>
     full_summary_cached (session (show_summary R L w st reqs summary)) = Some None"
  "\<not> regenerate_clicked w \<Longrightarrow> ending (show_summary R L w st reqs summary) \<noteq> Rerun"
  "\<not> regenerate_clicked w \<Longrightarrow> session (show_summary R L w st reqs summary) = st"
  by (simp_all add: show_summary_def Let_def split: sum.splits)

lemma run_cached_no_request:
  assumes "full_summary_cached st = Some (Some summary)"
  shows "requests (run_script R L API_KEY post w st) = []"
  by (cases rule: run_script_cases [of w R L API_KEY post st])
    (use assms in \<open>auto simp: show_summary_fields\<close>)

lemma run_empty_one_request:
  assumes "uploaded_file w = Some (Inr transcript)"
    and "full_summary_cached st = Some None"
  shows "requests (run_script R L API_KEY post w st)
    = [fst (summarize_full_text API_KEY post transcript)]"
  by (cases rule: run_script_cases [of w R L API_KEY post st])
    (use assms in \<open>auto simp: show_summary_fields\<close>)

lemma run_button:
  assumes "Button_regenerate \<in> set (shown (run_script R L API_KEY post w st))"
  shows "(\<exists>transcript. uploaded_file w = Some (Inr transcript))
    \<and> (ending (run_script R L API_KEY post w st) = Rerun
        \<or> (\<exists>summary. full_summary_cached (session (run_script R L API_KEY post w st))
              = Some (Some summary)))"
proof (cases rule: run_script_cases [of w R L API_KEY post st])
  case (cached transcript summary)
  then show ?thesis by (cases "regenerate_clicked w") (simp_all add: show_summary_fields)
next
  case (fresh transcript req summary)
  then show ?thesis by (cases "regenerate_clicked w") (simp_all add: show_summary_fields)
qed (use assms in auto)

lemma reachable_button:
  assumes "reachable R L API_KEY a" and "button_shown a" and "\<not> rerun_pending a"
  shows "(\<exists>transcript. uploaded_file (app_widgets a) = Some (Inr transcript))
    \<and> (\<exists>summary. full_summary_cached (app_session a) = Some (Some summary))"
  using assms(1)
proof (cases rule: reachable.cases)
  case start
  with assms(2) show ?thesis by (simp add: initial_app_def)
next
  case (next_run a0 r)
  from next_run(2) obtain w post where a: "a = after_run w r"
    and r: "r = run_script R L API_KEY post w (app_session a0)"
    by (auto elim: step.cases)
  from assms(2) a have "Button_regenerate \<in> set (shown r)"
    by (simp add: after_run_def)
  from run_button [OF this [unfolded r]] assms(3) a r show ?thesis
    by (simp add: after_run_def)
qed

lemma step_cached_no_request:
  assumes "step R L API_KEY a r a'" and "full_summary_cached (app_session a) = Some (Some summary)"
  shows "requests r = []"
  using assms by (auto elim!: step.cases simp: run_cached_no_request)

lemma regenerate_run:
  assumes "reachable R L API_KEY a" and "step R L API_KEY a r a'"
    and "regenerate_clicked (app_widgets a')"
  shows "requests r = []"
    and "full_summary_cached (app_session a') = Some None"
    and "rerun_pending a'"
    and "\<exists>transcript. uploaded_file (app_widgets a') = Some (Inr transcript)"
proof -
  from assms(2,3) obtain w post where a': "a' = after_run w r"
    and r: "r = run_script R L API_KEY post w (app_session a)"
    and m: "may_interact a w" and c: "regenerate_clicked w"
    by (auto elim!: step.cases simp: after_run_def)
  from m c have b: "button_shown a" "\<not> rerun_pending a"
    and u: "uploaded_file w = uploaded_file (app_widgets a)"
    by (simp_all add: may_interact_def)
  from reachable_button [OF assms(1) b] u obtain transcript summary
    where t: "uploaded_file w = Some (Inr transcript)"
      and s: "full_summary_cached (app_session a) = Some (Some summary)"
    by auto
  from r t s have r': "r = show_summary R L w (app_session a) [] summary"
    by (simp add: run_cached)
  from r' show "requests r = []" by (simp add: show_summary_fields)
  from r' c a' show "full_summary_cached (app_session a') = Some None"
    by (simp add: show_summary_fields after_run_def)
  from r' c a' show "rerun_pending a'"
    by (simp add: show_summary_fields after_run_def)
  from t a' show "\<exists>transcript. uploaded_file (app_widgets a') = Some (Inr transcript)"
    by (simp add: after_run_def)
qed

lemma rerun_one_request:
  assumes "rerun_pending a" and "full_summary_cached (app_session a) = Some None"
    and "uploaded_file (app_widgets a) = Some (Inr transcript)"
    and "step R L API_KEY a r a'"
  shows "length (requests r) = 1"
  using assms(4)
proof (cases rule: step.cases)
  case (interaction w post)
  with assms(1) show ?thesis by (simp add: may_interact_def)
next
  case (rerun w post)
  with assms(2,3) show ?thesis
    by (simp add: run_empty_one_request)
qed

text \<open>
  Claim C3. In every execution, the run in which the regenerate button is pressed sends
  no request, empties the slot and asks for a rerun; that rerun takes place, and it
  sends exactly one request. A run that starts with a summary in the slot sends no
  request, whatever the widgets hold.
\<close>

theorem regenerate_issues_one_request:
  "(reachable R L API_KEY a \<and> step R L API_KEY a r a' \<and> regenerate_clicked (app_widgets a') \<longrightarrow>
      requests r = []
      \<and> full_summary_cached (app_session a') = Some None
      \<and> rerun_pending a'
      \<and> (\<exists>r' a''. step R L API_KEY a' r' a'')
      \<and> (\<forall>r' a''. step R L API_KEY a' r' a'' \<longrightarrow> length (requests r') = 1))
   \<and> (step R L API_KEY a r a' \<and> full_summary_cached (app_session a) = Some (Some summary) \<longrightarrow>
        requests r = [])"
proof (intro conjI impI allI)
  assume h: "reachable R L API_KEY a \<and> step R L API_KEY a r a' \<and> regenerate_clicked (app_widgets a')"
  then have h1: "reachable R L API_KEY a" and h2: "step R L API_KEY a r a'"
    and h3: "regenerate_clicked (app_widgets a')"
    by blast+
  note g = regenerate_run [OF h1 h2 h3]
  from g show "requests r = []" "full_summary_cached (app_session a') = Some None"
    "rerun_pending a'" by blast+
  from g(3) show "\<exists>r' a''. step R L API_KEY a' r' a''"
    using step.rerun [of a' _ _ R L API_KEY] by blast
  fix r' a''
  assume "step R L API_KEY a' r' a''"
  with g show "length (requests r') = 1"
    using rerun_one_request by blast
next
  assume "step R L API_KEY a r a' \<and> full_summary_cached (app_session a) = Some (Some summary)"
  then show "requests r = []"
    using step_cached_no_request by blast
qed

lemma summary_post_result:
  "snd (summarize_full_text API_KEY summary_post text) = Inr (JString (ascii ''## Notes''))"
  by (simp add: summarize_result summary_post_def handle_response_def summary_reply_def ascii_def)

lemma refusal_post_result:
  "snd (summarize_full_text API_KEY refusal_post text)
     = Inr (JString (ascii ''ERROR: 429 - slow down''))"
  by (simp add: summarize_result refusal_post_def handle_response_def refusal_reply_def
      str_int_429) (simp add: ascii_def)

lemma not_error: "\<not> startswith (ascii ''## Notes'') (ascii ''ERROR'')"
  by (simp add: startswith_def ascii_def)

lemma is_error: "startswith (ascii ''ERROR: 429 - slow down'') (ascii ''ERROR'')"
  by (simp add: startswith_def ascii_def)

lemma run1_eq:
  "run1 = show_summary example_library no_case_table visit \<lparr>full_summary_cached = Some (Some (ascii ''## Notes''))\<rparr>
     [fst (summarize_full_text (ascii ''k'') summary_post (ascii ''hi''))] (ascii ''## Notes'')"
proof -
  obtain req res where s: "summarize_full_text (ascii ''k'') summary_post (ascii ''hi'') = (req, res)"
    by (cases "summarize_full_text (ascii ''k'') summary_post (ascii ''hi'')")
  with summary_post_result [of "ascii ''k''" "ascii ''hi''"]
  have "res = Inr (JString (ascii ''## Notes''))" by simp
  with s show ?thesis
    by (simp add: run1_def run_script_def visit_def initial_app_def not_error)
qed

lemma app1_fields:
  "app_session app1 = \<lparr>full_summary_cached = Some (Some (ascii ''## Notes''))\<rparr>"
  "app_widgets app1 = visit" "\<not> rerun_pending app1" "button_shown app1"
  by (simp_all add: app1_def after_run_def run1_eq show_summary_fields visit_def)

lemma reachable_app1: "reachable example_library no_case_table (ascii ''k'') app1"
proof -
  have "may_interact initial_app visit"
    by (simp add: may_interact_def initial_app_def visit_def)
  then have "step example_library no_case_table (ascii ''k'') initial_app run1 app1"
    unfolding app1_def by (rule step.interaction) (simp add: run1_def)
  with reachable.start show ?thesis by (rule reachable.next_run)
qed

lemma step_app1: "step example_library no_case_table (ascii ''k'') app1 run2 app2"
proof -
  have "may_interact app1 (visit\<lparr>regenerate_clicked := True\<rparr>)"
    by (simp add: may_interact_def app1_fields)
  then show ?thesis
    unfolding app2_def by (rule step.interaction) (simp add: run2_def)
qed


text \<open>
  The theorem of C3 at the execution of the examples.
\<close>

theorem regenerate_issues_one_request_witness:
  "reachable example_library no_case_table (ascii ''k'') app1
   \<and> step example_library no_case_table (ascii ''k'') app1 run2 app2
   \<and> regenerate_clicked (app_widgets app2)
   \<and> requests run2 = []
   \<and> full_summary_cached (app_session app2) = Some None
   \<and> step example_library no_case_table (ascii ''k'') app2 run3 app3
   \<and> length (requests run3) = 1"
proof -
  have c: "regenerate_clicked (app_widgets app2)"
    by (simp add: app2_def after_run_def)
  from reachable_app1 step_app1 c
    regenerate_issues_one_request [of example_library no_case_table "ascii ''k''" app1 run2 app2]
  have 1: "requests run2 = []" and 2: "full_summary_cached (app_session app2) = Some None"
    and 3: "rerun_pending app2"
    and 4: "\<forall>r' a''. step example_library no_case_table (ascii ''k'') app2 r' a'' \<longrightarrow> length (requests r') = 1"
    by blast+
  from 3 have 5: "step example_library no_case_table (ascii ''k'') app2 run3 app3"
    unfolding app3_def by (rule step.rerun) (simp_all add: run3_def)
  with 4 have "length (requests run3) = 1" by blast
  with reachable_app1 step_app1 c 1 2 5 show ?thesis by blast
qed

text \<open>
  The theorem of C4 at the first run of the examples, once with the service that
  refuses and once with the service that answers.
\<close>

theorem error_summary_halts_run_witness:
  "uploaded_file visit = Some (Inr (ascii ''hi''))
   \<and> full_summary_cached (app_session initial_app) = None
   \<and> summarize_full_text (ascii ''k'') refusal_post (ascii ''hi'')
       = (fst (summarize_full_text (ascii ''k'') refusal_post (ascii ''hi'')),
          Inr (JString (ascii ''ERROR: 429 - slow down'')))
   \<and> startswith (ascii ''ERROR: 429 - slow down'') (ascii ''ERROR'')
   \<and> run_script example_library no_case_table (ascii ''k'') refusal_post visit (app_session initial_app)
       = \<lparr>session = \<lparr>full_summary_cached = Some None\<rparr>,
          requests = [fst (summarize_full_text (ascii ''k'') refusal_post (ascii ''hi''))],
          shown = [Info_summarizing, Error (ascii ''ERROR: 429 - slow down'')],
          ending = Stopped\<rparr>
   \<and> full_summary_cached (session run1) = Some (Some (ascii ''## Notes''))
   \<and> (\<exists>text response.
         uploaded_file visit = Some (Inr text)
         \<and> summary_post (fst (summarize_full_text (ascii ''k'') summary_post text)) = Inr response
         \<and> status_code response = 200
         \<and> handle_response response = Inr (JString (ascii ''## Notes''))
         \<and> \<not> startswith (ascii ''## Notes'') (ascii ''ERROR''))"
proof -
  have u: "uploaded_file visit = Some (Inr (ascii ''hi''))"
    by (simp add: visit_def)
  have e: "full_summary_cached (app_session initial_app) = None"
    by (simp add: initial_app_def)
  have s: "summarize_full_text (ascii ''k'') refusal_post (ascii ''hi'')
       = (fst (summarize_full_text (ascii ''k'') refusal_post (ascii ''hi'')),
          Inr (JString (ascii ''ERROR: 429 - slow down'')))"
    using refusal_post_result [of "ascii ''k''" "ascii ''hi''"]
    by (cases "summarize_full_text (ascii ''k'') refusal_post (ascii ''hi'')") simp
  have i: "(app_session initial_app)\<lparr>full_summary_cached := Some None\<rparr>
      = \<lparr>full_summary_cached = Some None\<rparr>"
    by (simp add: initial_app_def)
  have c: "full_summary_cached (session run1) = Some (Some (ascii ''## Notes''))"
    by (simp add: run1_eq show_summary_fields visit_def)
  from u e s is_error
    error_summary_halts_run [of visit "ascii ''hi''" "app_session initial_app" "ascii ''k''"
      refusal_post "fst (summarize_full_text (ascii ''k'') refusal_post (ascii ''hi''))"
      "ascii ''ERROR: 429 - slow down''" example_library no_case_table]
  have 1: "run_script example_library no_case_table (ascii ''k'') refusal_post visit (app_session initial_app)
       = \<lparr>session = (app_session initial_app)\<lparr>full_summary_cached := Some None\<rparr>,
          requests = [fst (summarize_full_text (ascii ''k'') refusal_post (ascii ''hi''))],
          shown = [Info_summarizing, Error (ascii ''ERROR: 429 - slow down'')],
          ending = Stopped\<rparr>"
    by blast
  from e c [unfolded run1_def]
    error_summary_halts_run [of visit _ "app_session initial_app" "ascii ''k''" summary_post _ _
      example_library no_case_table "ascii ''## Notes''"]
  have 2: "\<exists>text response.
         uploaded_file visit = Some (Inr text)
         \<and> summary_post (fst (summarize_full_text (ascii ''k'') summary_post text)) = Inr response
         \<and> status_code response = 200
         \<and> handle_response response = Inr (JString (ascii ''## Notes''))
         \<and> \<not> startswith (ascii ''## Notes'') (ascii ''ERROR'')"
    by blast
  from u e s is_error 1 [unfolded i] c 2 show ?thesis by blast
qed

lemma run_download:
  assumes "Download_button n pdf \<in> set (shown (run_script R L API_KEY post w st))"
  shows "n = file_name (pdf_name w)"
proof (cases rule: run_script_cases [of w R L API_KEY post st])
  case (cached transcript summary)
  with assms show ?thesis using show_summary_download by simp
next
  case (fresh transcript req summary)
  with assms show ?thesis using show_summary_download by simp
next
  case no_upload
  with assms show ?thesis by simp
next
  case (undecodable e)
  with assms show ?thesis by simp
next
  case (raised transcript req e)
  with assms show ?thesis by simp
next
  case (failed transcript req summary)
  with assms show ?thesis by simp
next
  case (not_a_string transcript req v)
  with assms show ?thesis by simp
qed

text \<open>
  Claim C9. The file name of the download is the trimmed value of the field followed by
  \<^verbatim>\<open>.pdf\<close> when the trimmed value is not empty, and \<^verbatim>\<open>summary.pdf\<close> when the field is
  empty or white space only. Every download button that a run shows has this name, and
  a run that finds a summary in the slot, with the regenerate button not pressed and
  \<^verbatim>\<open>create_pdf\<close> returning the PDF, ends its page with that button.
\<close>

theorem download_named_after_field:
  "(py_strip (pdf_name w) \<noteq> [] \<longrightarrow>
      file_name (pdf_name w) = py_strip (pdf_name w) @ ascii ''.pdf'')
   \<and> (list_all isspace (pdf_name w) \<longrightarrow> file_name (pdf_name w) = ascii ''summary.pdf'')
   \<and> (Download_button n pdf \<in> set (shown (run_script R L API_KEY post w st)) \<longrightarrow>
        n = file_name (pdf_name w))
   \<and> (uploaded_file w = Some (Inr transcript)
        \<and> full_summary_cached st = Some (Some summary)
        \<and> \<not> regenerate_clicked w
        \<and> create_pdf R L summary = Inr pdf \<longrightarrow>
        last (shown (run_script R L API_KEY post w st))
          = Download_button (file_name (pdf_name w)) pdf)"
proof (intro conjI impI)
  assume "py_strip (pdf_name w) \<noteq> []"
  then show "file_name (pdf_name w) = py_strip (pdf_name w) @ ascii ''.pdf''"
    by (rule file_name_stripped)
next
  assume "list_all isspace (pdf_name w)"
  then show "file_name (pdf_name w) = ascii ''summary.pdf''"
    by (rule file_name_default)
next
  assume "Download_button n pdf \<in> set (shown (run_script R L API_KEY post w st))"
  then show "n = file_name (pdf_name w)"
    by (rule run_download)
next
  assume a: "uploaded_file w = Some (Inr transcript)
        \<and> full_summary_cached st = Some (Some summary)
        \<and> \<not> regenerate_clicked w
        \<and> create_pdf R L summary = Inr pdf"
  then have "run_script R L API_KEY post w st = show_summary R L w st [] summary"
    by (simp add: run_cached)
  with a show "last (shown (run_script R L API_KEY post w st))
          = Download_button (file_name (pdf_name w)) pdf"
    by (simp add: show_summary_def)
qed

text \<open>
  The theorem of C9 at a field with spaces around a name, at a field of white space, at
  the empty field, and at a run that shows the download button.
\<close>

theorem download_named_after_field_witness:
  "py_strip (pdf_name visit) \<noteq> []
   \<and> file_name (pdf_name visit) = ascii ''notes.pdf''
   \<and> list_all isspace (pdf_name (visit\<lparr>pdf_name := [32, 9]\<rparr>))
   \<and> file_name (pdf_name (visit\<lparr>pdf_name := [32, 9]\<rparr>)) = ascii ''summary.pdf''
   \<and> file_name [] = ascii ''summary.pdf''
   \<and> create_pdf example_library no_case_table (ascii ''## Notes'') = Inr (ascii ''%PDF'')
   \<and> last (shown (run_script example_library no_case_table (ascii ''k'') refusal_post visit
        (app_session app1)))
       = Download_button (ascii ''notes.pdf'') (ascii ''%PDF'')"
proof -
  have a: "py_strip (pdf_name visit) \<noteq> []"
    by (simp add: visit_def eval_defs)
  have b: "py_strip (pdf_name visit) @ ascii ''.pdf'' = ascii ''notes.pdf''"
    by (simp add: visit_def eval_defs)
  have c: "list_all isspace (pdf_name (visit\<lparr>pdf_name := [32, 9]\<rparr>))"
    by (simp add: isspace_def)
  have d: "list_all isspace (pdf_name (visit\<lparr>pdf_name := []\<rparr>))"
    by simp
  have p: "create_pdf example_library no_case_table (ascii ''## Notes'') = Inr (ascii ''%PDF'')"
    by (simp add: create_pdf_def build_story_def eval_defs)
  have e: "uploaded_file visit = Some (Inr (ascii ''hi''))
    \<and> full_summary_cached (app_session app1) = Some (Some (ascii ''## Notes''))
    \<and> \<not> regenerate_clicked visit"
    by (simp add: visit_def app1_fields)
  from a download_named_after_field [of visit]
  have 1: "file_name (pdf_name visit) = py_strip (pdf_name visit) @ ascii ''.pdf''"
    by blast
  from c download_named_after_field [of "visit\<lparr>pdf_name := [32, 9]\<rparr>"]
  have 2: "file_name (pdf_name (visit\<lparr>pdf_name := [32, 9]\<rparr>)) = ascii ''summary.pdf''"
    by blast
  from d download_named_after_field [of "visit\<lparr>pdf_name := []\<rparr>"]
  have "file_name (pdf_name (visit\<lparr>pdf_name := []\<rparr>)) = ascii ''summary.pdf''"
    by blast
  then have 3: "file_name [] = ascii ''summary.pdf''" by simp
  from e p download_named_after_field [of visit _ "ascii ''%PDF''" example_library no_case_table
      "ascii ''k''" refusal_post "app_session app1" "ascii ''hi''" "ascii ''## Notes''"]
  have 4: "last (shown (run_script example_library no_case_table (ascii ''k'') refusal_post visit
        (app_session app1)))
       = Download_button (file_name (pdf_name visit)) (ascii ''%PDF'')"
    by blast
  from a c p 1 2 3 4 show ?thesis by (simp only: b simp_thms)
qed

end
